theory Spec2Isabelle
  imports Main
begin

section \<open>The progressive frameloop of the canvas (use-progressive-frameloop.tsx)\<close>

text \<open>
  The hook keeps three refs (\<open>timerRef\<close>, \<open>intervalIndexRef\<close>, \<open>isActiveRef\<close>) and talks
  to three collaborators: the timer queue of the JavaScript runtime (\<open>setTimeout\<close>,
  \<open>clearTimeout\<close>), the listener table of \<open>window\<close>, and the bridge's \<open>on\<close>. The embedding
  threads one record through every function: the refs, the part of the runtime the hook
  touches, and a log of the effects it performs, in program order.
\<close>

subsection \<open>Data\<close>

text \<open>The backoff table, in milliseconds, as in the source.\<close>

definition PROGRESSIVE_INTERVALS :: "nat list" where
  "PROGRESSIVE_INTERVALS = [16, 16, 33, 66, 133, 266, 533, 1000]"

text \<open>The four closures that the effect hands to the outside world.\<close>

datatype callback = HandleHMR | HandleFocus | HandleBlur | HandleUserInteraction

text \<open>What the hook does to the outside world: a timer handle is a natural number.\<close>

datatype effect = Invalidate | ClearTimeout nat | SetTimeout nat nat

record state =
  timerRef :: "nat option"
  intervalIndexRef :: int
  isActiveRef :: bool
  timers :: "(nat \<times> nat) list"
  next_handle :: nat
  window_listeners :: "(string \<times> callback \<times> bool) list"
  bridge_listeners :: "(string \<times> callback) list"
  effects :: "effect list"

text \<open>
  \<open>timers\<close> is the runtime's queue of pending timeouts, each a handle with the delay it
  was armed with; \<open>next_handle\<close> is the handle the next \<open>setTimeout\<close> returns. A listener
  of \<open>window\<close> is identified by its event type, its callback and its capture flag.
  The refs start as \<open>useRef(null)\<close>, \<open>useRef(0)\<close> and \<open>useRef(true)\<close>.
\<close>

definition initial :: state where
  "initial = \<lparr> timerRef = None, intervalIndexRef = 0, isActiveRef = True,
     timers = [], next_handle = 1, window_listeners = [], bridge_listeners = [],
     effects = [] \<rparr>"

subsection \<open>The runtime\<close>

text \<open>\<open>invalidate()\<close> of the rendering surface: the request is all the hook observes.\<close>

definition invalidate :: "state \<Rightarrow> state" where
  "invalidate s = s\<lparr>effects := effects s @ [Invalidate]\<rparr>"

text \<open>\<open>setTimeout(cb, d)\<close> arms a timer under a fresh handle and returns the handle.\<close>

definition setTimeout :: "nat \<Rightarrow> state \<Rightarrow> nat \<times> state" where
  "setTimeout d s =
     (next_handle s,
      s\<lparr>timers := timers s @ [(next_handle s, d)],
        next_handle := Suc (next_handle s),
        effects := effects s @ [SetTimeout (next_handle s) d]\<rparr>)"

text \<open>\<open>clearTimeout(h)\<close> drops the timer of that handle; an unknown handle is ignored.\<close>

definition clearTimeout :: "nat \<Rightarrow> state \<Rightarrow> state" where
  "clearTimeout h s =
     s\<lparr>timers := filter (\<lambda>t. fst t \<noteq> h) (timers s),
       effects := effects s @ [ClearTimeout h]\<rparr>"

text \<open>
  \<open>window.addEventListener\<close> ignores a listener that is already there (same type,
  callback and capture flag); \<open>removeEventListener\<close> removes the one that matches.
  The \<open>passive\<close> option plays no part in the match.
\<close>

definition add_listener :: "'a \<Rightarrow> 'a list \<Rightarrow> 'a list" where
  "add_listener l ls = (if l \<in> set ls then ls else ls @ [l])"

definition addEventListener :: "string \<Rightarrow> callback \<Rightarrow> bool \<Rightarrow> state \<Rightarrow> state" where
  "addEventListener ty cb cap s =
     s\<lparr>window_listeners := add_listener (ty, cb, cap) (window_listeners s)\<rparr>"

definition removeEventListener :: "string \<Rightarrow> callback \<Rightarrow> bool \<Rightarrow> state \<Rightarrow> state" where
  "removeEventListener ty cb cap s =
     s\<lparr>window_listeners := filter (\<lambda>l. l \<noteq> (ty, cb, cap)) (window_listeners s)\<rparr>"

text \<open>
  Modelled from the spec: the bridge's \<open>on(name, callback)\<close> (imported from
  @triplex/bridge/client, whose code is not part of the sources at hand). The spec
  describes it as a single named out-of-band event that the scheduler consumes and that
  teardown detaches from: \<open>on\<close> subscribes the callback to the named event, and the
  function it returns, \<open>unsubscribe\<close>, removes that subscription.
\<close>

definition on :: "string \<Rightarrow> callback \<Rightarrow> state \<Rightarrow> state" where
  "on name cb s = s\<lparr>bridge_listeners := bridge_listeners s @ [(name, cb)]\<rparr>"

definition unsubscribe :: "string \<Rightarrow> callback \<Rightarrow> state \<Rightarrow> state" where
  "unsubscribe name cb s = s\<lparr>bridge_listeners := remove1 (name, cb) (bridge_listeners s)\<rparr>"

subsection \<open>The hook\<close>

text \<open>
  \<open>PROGRESSIVE_INTERVALS[i]\<close> is \<open>undefined\<close> outside the array, and \<open>x || 1000\<close> is 1000
  when \<open>x\<close> is \<open>undefined\<close> or 0.
\<close>

definition js_index :: "nat list \<Rightarrow> int \<Rightarrow> nat option" where
  "js_index xs i = (if 0 \<le> i \<and> i < int (length xs) then Some (xs ! nat i) else None)"

definition currentInterval :: "int \<Rightarrow> nat" where
  "currentInterval i =
     (case js_index PROGRESSIVE_INTERVALS i of
        None \<Rightarrow> 1000
      | Some v \<Rightarrow> if v = 0 then 1000 else v)"

text \<open>
  A timer handle is never falsy (an object in Node, a positive number in a browser), so
  \<open>if (timerRef.current)\<close> tests for \<open>null\<close>.
\<close>

definition clearTimer :: "state \<Rightarrow> state" where
  "clearTimer s =
     (case timerRef s of
        None \<Rightarrow> s
      | Some h \<Rightarrow> (clearTimeout h s)\<lparr>timerRef := None\<rparr>)"

definition scheduleNextRender :: "state \<Rightarrow> state" where
  "scheduleNextRender s =
     (let s1 = clearTimer s;
          d = currentInterval (intervalIndexRef s1);
          (h, s2) = setTimeout d s1
      in s2\<lparr>timerRef := Some h\<rparr>)"

text \<open>
  The body of the arrow function given to \<open>setTimeout\<close>. Its last statement calls
  \<open>scheduleNextRender\<close> again; the recursion of the source goes through the runtime, which
  runs this body when the timer is due (see \<open>fire\<close>).
\<close>

definition timer_callback :: "state \<Rightarrow> state" where
  "timer_callback s =
     (let s1 = invalidate s;
          s2 = (if intervalIndexRef s1 < int (length PROGRESSIVE_INTERVALS) - 1
                then s1\<lparr>intervalIndexRef := intervalIndexRef s1 + 1\<rparr>
                else s1)
      in scheduleNextRender s2)"

definition resetToFastRendering :: "state \<Rightarrow> state" where
  "resetToFastRendering s =
     invalidate (scheduleNextRender (clearTimer
       (s\<lparr>intervalIndexRef := 0, isActiveRef := True\<rparr>)))"

definition handleFocus :: "state \<Rightarrow> state" where
  "handleFocus s = resetToFastRendering s"

definition handleBlur :: "state \<Rightarrow> state" where
  "handleBlur s = s\<lparr>isActiveRef := False\<rparr>"

definition handleUserInteraction :: "state \<Rightarrow> state" where
  "handleUserInteraction s =
     (if \<not> isActiveRef s \<or> intervalIndexRef s > 0 then resetToFastRendering s else s)"

definition interactionEvents :: "string list" where
  "interactionEvents =
     [''mousemove'', ''mousedown'', ''mouseup'', ''wheel'', ''keydown'',
      ''touchstart'', ''touchmove'']"

text \<open>The body of the effect, run when the canvas mounts.\<close>

definition mount :: "state \<Rightarrow> state" where
  "mount s =
     (let s1 = scheduleNextRender s;
          s2 = on ''self:request-reset-error-boundary'' HandleHMR s1;
          s3 = addEventListener ''focus'' HandleFocus False s2;
          s4 = addEventListener ''blur'' HandleBlur False s3
      in fold (\<lambda>ev. addEventListener ev HandleUserInteraction False) interactionEvents s4)"

text \<open>The function the effect returns, run when the canvas unmounts.\<close>

definition cleanup :: "state \<Rightarrow> state" where
  "cleanup s =
     (let s1 = clearTimer s;
          s2 = unsubscribe ''self:request-reset-error-boundary'' HandleHMR s1;
          s3 = removeEventListener ''focus'' HandleFocus False s2;
          s4 = removeEventListener ''blur'' HandleBlur False s3
      in fold (\<lambda>ev. removeEventListener ev HandleUserInteraction False) interactionEvents s4)"

subsection \<open>Turns of the event loop\<close>

fun run_callback :: "callback \<Rightarrow> state \<Rightarrow> state" where
  "run_callback HandleHMR s = resetToFastRendering s"
| "run_callback HandleFocus s = handleFocus s"
| "run_callback HandleBlur s = handleBlur s"
| "run_callback HandleUserInteraction s = handleUserInteraction s"

text \<open>
  The runtime fires the timer of handle \<open>h\<close>: the timer leaves the queue and its callback
  runs. \<open>timerRef\<close> still holds the handle at that moment. Nothing happens for a handle
  that is not pending.
\<close>

definition fire :: "nat \<Rightarrow> state \<Rightarrow> state" where
  "fire h s =
     (if h \<in> fst ` set (timers s)
      then timer_callback (s\<lparr>timers := filter (\<lambda>t. fst t \<noteq> h) (timers s)\<rparr>)
      else s)"

text \<open>The timer that is due next, when the queue is not empty.\<close>

definition fire_next :: "state \<Rightarrow> state" where
  "fire_next s = (case timers s of [] \<Rightarrow> s | t # _ \<Rightarrow> fire (fst t) s)"

text \<open>\<open>window\<close> dispatches an event to the listeners of its type, in registration order.\<close>

definition dispatch :: "string \<Rightarrow> state \<Rightarrow> state" where
  "dispatch ty s =
     fold run_callback (map (\<lambda>l. fst (snd l)) (filter (\<lambda>l. fst l = ty) (window_listeners s))) s"

definition emit :: "string \<Rightarrow> state \<Rightarrow> state" where
  "emit name s =
     fold run_callback (map snd (filter (\<lambda>l. fst l = name) (bridge_listeners s))) s"

datatype event = Window string | Bridge string | Timer nat | Unmount

fun step :: "event \<Rightarrow> state \<Rightarrow> state" where
  "step (Window ty) s = dispatch ty s"
| "step (Bridge name) s = emit name s"
| "step (Timer h) s = fire h s"
| "step Unmount s = cleanup s"

definition run :: "event list \<Rightarrow> state \<Rightarrow> state" where
  "run evs s = fold step evs s"

text \<open>The scheduler right after the canvas has mounted.\<close>

definition started :: state where
  "started = mount initial"

subsection \<open>Observations and invariants\<close>

definition redraws :: "state \<Rightarrow> nat" where
  "redraws s = length (filter (\<lambda>e. e = Invalidate) (effects s))"

text \<open>\<open>n\<close> timer fires in a row, nothing else in between.\<close>

definition fires :: "nat \<Rightarrow> state \<Rightarrow> state" where
  "fires n s = (fire_next ^^ n) s"

text \<open>The delays of the pending timers.\<close>

definition pending_delays :: "state \<Rightarrow> nat list" where
  "pending_delays s = map snd (timers s)"

definition last_index :: int where
  "last_index = int (length PROGRESSIVE_INTERVALS) - 1"

definition cursor_ok :: "state \<Rightarrow> bool" where
  "cursor_ok s = (0 \<le> intervalIndexRef s \<and> intervalIndexRef s \<le> last_index)"

text \<open>
  The hook owns every pending timer: there is none, or only the one in \<open>timerRef\<close>, and
  its handle is one the runtime has already given out.
\<close>

definition timer_owned :: "state \<Rightarrow> bool" where
  "timer_owned s =
     (case timers s of
        [] \<Rightarrow> True
      | [t] \<Rightarrow> timerRef s = Some (fst t) \<and> fst t < next_handle s
      | _ \<Rightarrow> False)"

text \<open>A timer is pending, armed with the interval of the cursor.\<close>

definition armed :: "state \<Rightarrow> bool" where
  "armed s =
     (case timers s of
        [t] \<Rightarrow> timerRef s = Some (fst t) \<and> snd t = currentInterval (intervalIndexRef s)
      | _ \<Rightarrow> False)"

text \<open>The listeners of a mounted scheduler are those that \<open>mount\<close> attaches.\<close>

definition attached :: "state \<Rightarrow> bool" where
  "attached s =
     (window_listeners s = window_listeners started \<and>
      bridge_listeners s = bridge_listeners started)"

definition detached :: "state \<Rightarrow> bool" where
  "detached s = (window_listeners s = [] \<and> bridge_listeners s = [])"

section \<open>Basic facts\<close>

lemma length_intervals: "length PROGRESSIVE_INTERVALS = 8"
  by (simp add: PROGRESSIVE_INTERVALS_def)

lemma last_index_eq: "last_index = 7"
  by (simp add: last_index_def length_intervals)

lemma interval_in_range:
  assumes "0 \<le> i" "i \<le> last_index"
  shows "currentInterval i = PROGRESSIVE_INTERVALS ! nat i"
proof -
  from assms have "nat i \<in> {0,1,2,3,4,5,6,7}" by (auto simp: last_index_eq)
  with assms show ?thesis
    by (auto simp: currentInterval_def js_index_def PROGRESSIVE_INTERVALS_def last_index_eq)
qed

lemma interval_out_of_range:
  "i < 0 \<or> last_index < i \<Longrightarrow> currentInterval i = 1000"
  by (auto simp: currentInterval_def js_index_def last_index_def)

lemma interval_positive: "0 < currentInterval i"
  by (simp add: currentInterval_def split: option.splits)

lemma intervals_sorted: "sorted PROGRESSIVE_INTERVALS"
  by (simp add: PROGRESSIVE_INTERVALS_def)

lemma timer_owned_iff:
  "timer_owned s \<longleftrightarrow>
     timers s = [] \<or> (\<exists>h d. timers s = [(h, d)] \<and> timerRef s = Some h \<and> h < next_handle s)"
  by (auto simp: timer_owned_def split: list.splits)

lemma armed_iff:
  "armed s \<longleftrightarrow>
     (\<exists>h. timers s = [(h, currentInterval (intervalIndexRef s))] \<and> timerRef s = Some h)"
  by (auto simp: armed_def split: list.splits)

lemma clearTimer_fields [simp]:
  "timerRef (clearTimer s) = None"
  "intervalIndexRef (clearTimer s) = intervalIndexRef s"
  "isActiveRef (clearTimer s) = isActiveRef s"
  "next_handle (clearTimer s) = next_handle s"
  "window_listeners (clearTimer s) = window_listeners s"
  "bridge_listeners (clearTimer s) = bridge_listeners s"
  "effects (clearTimer s) =
     effects s @ (case timerRef s of None \<Rightarrow> [] | Some h \<Rightarrow> [ClearTimeout h])"
  by (simp_all add: clearTimer_def clearTimeout_def split: option.splits)

lemma timers_clearTimer: "timer_owned s \<Longrightarrow> timers (clearTimer s) = []"
  by (auto simp: timer_owned_iff clearTimer_def clearTimeout_def split: option.splits)

lemma scheduleNextRender_fields [simp]:
  "timerRef (scheduleNextRender s) = Some (next_handle s)"
  "intervalIndexRef (scheduleNextRender s) = intervalIndexRef s"
  "isActiveRef (scheduleNextRender s) = isActiveRef s"
  "next_handle (scheduleNextRender s) = Suc (next_handle s)"
  "window_listeners (scheduleNextRender s) = window_listeners s"
  "bridge_listeners (scheduleNextRender s) = bridge_listeners s"
  "timers (scheduleNextRender s) =
     timers (clearTimer s) @ [(next_handle s, currentInterval (intervalIndexRef s))]"
  "effects (scheduleNextRender s) =
     effects (clearTimer s) @ [SetTimeout (next_handle s) (currentInterval (intervalIndexRef s))]"
  by (simp_all add: scheduleNextRender_def setTimeout_def Let_def)

lemma timers_schedule:
  "timer_owned s \<Longrightarrow>
   timers (scheduleNextRender s) = [(next_handle s, currentInterval (intervalIndexRef s))]"
  by (simp add: timers_clearTimer)

lemma timer_owned_clearTimer: "timer_owned s \<Longrightarrow> timer_owned (clearTimer s)"
  using timers_clearTimer [of s] by (simp add: timer_owned_def [of "clearTimer s"])

lemma timer_owned_schedule: "timer_owned s \<Longrightarrow> timer_owned (scheduleNextRender s)"
  using timers_schedule [of s] by (simp add: timer_owned_def [of "scheduleNextRender s"])

lemma armed_schedule: "timer_owned s \<Longrightarrow> armed (scheduleNextRender s)"
  using timers_schedule [of s] by (simp add: armed_def)

lemma armed_owned: "armed s \<Longrightarrow> h < next_handle s \<Longrightarrow> timers s = [(h, d)] \<Longrightarrow> timer_owned s"
  by (auto simp: armed_iff timer_owned_iff)

lemma invalidate_fields [simp]:
  "timerRef (invalidate s) = timerRef s"
  "intervalIndexRef (invalidate s) = intervalIndexRef s"
  "isActiveRef (invalidate s) = isActiveRef s"
  "next_handle (invalidate s) = next_handle s"
  "timers (invalidate s) = timers s"
  "window_listeners (invalidate s) = window_listeners s"
  "bridge_listeners (invalidate s) = bridge_listeners s"
  "effects (invalidate s) = effects s @ [Invalidate]"
  by (simp_all add: invalidate_def)

lemma timer_owned_invalidate [simp]: "timer_owned (invalidate s) = timer_owned s"
  by (simp add: timer_owned_def split: list.splits)

lemma redraws_append: "redraws (s\<lparr>effects := effects s @ es\<rparr>) = redraws s + length (filter (\<lambda>e. e = Invalidate) es)"
  by (simp add: redraws_def)

lemma timer_callback_fields [simp]:
  "timerRef (timer_callback s) = Some (next_handle s)"
  "intervalIndexRef (timer_callback s) =
     (if intervalIndexRef s < last_index then intervalIndexRef s + 1 else intervalIndexRef s)"
  "isActiveRef (timer_callback s) = isActiveRef s"
  "next_handle (timer_callback s) = Suc (next_handle s)"
  "window_listeners (timer_callback s) = window_listeners s"
  "bridge_listeners (timer_callback s) = bridge_listeners s"
  by (simp_all add: timer_callback_def Let_def last_index_def)

lemma timer_callback_effects:
  "effects (timer_callback s) =
     effects s @ [Invalidate] @ (case timerRef s of None \<Rightarrow> [] | Some h \<Rightarrow> [ClearTimeout h]) @
       [SetTimeout (next_handle s) (currentInterval (intervalIndexRef (timer_callback s)))]"
  by (simp add: timer_callback_def Let_def last_index_def)

lemma timer_callback_timers:
  "timers s = [] \<Longrightarrow>
   timers (timer_callback s) =
     [(next_handle s, currentInterval (intervalIndexRef (timer_callback s)))]"
  by (simp add: timer_callback_def Let_def last_index_def clearTimer_def clearTimeout_def
      split: option.splits)

lemma resetToFastRendering_fields [simp]:
  "timerRef (resetToFastRendering s) = Some (next_handle s)"
  "intervalIndexRef (resetToFastRendering s) = 0"
  "isActiveRef (resetToFastRendering s) = True"
  "next_handle (resetToFastRendering s) = Suc (next_handle s)"
  "window_listeners (resetToFastRendering s) = window_listeners s"
  "bridge_listeners (resetToFastRendering s) = bridge_listeners s"
  by (simp_all add: resetToFastRendering_def)

lemma resetToFastRendering_effects:
  "effects (resetToFastRendering s) =
     effects s @ (case timerRef s of None \<Rightarrow> [] | Some h \<Rightarrow> [ClearTimeout h]) @
       [SetTimeout (next_handle s) (currentInterval 0), Invalidate]"
  by (simp add: resetToFastRendering_def clearTimer_def clearTimeout_def split: option.splits)

lemma resetToFastRendering_timers:
  "timer_owned s \<Longrightarrow> timers (resetToFastRendering s) = [(next_handle s, currentInterval 0)]"
  by (auto simp: resetToFastRendering_def timer_owned_iff clearTimer_def clearTimeout_def split: option.splits)

subsection \<open>Timer fires\<close>

lemma fire_pending:
  "timers s = [(h, d)] \<Longrightarrow> fire h s = timer_callback (s\<lparr>timers := []\<rparr>)"
  by (simp add: fire_def)

lemma fire_not_pending: "h \<notin> fst ` set (timers s) \<Longrightarrow> fire h s = s"
  by (simp add: fire_def)

lemma fire_next_pending:
  "timers s = [(h, d)] \<Longrightarrow> fire_next s = timer_callback (s\<lparr>timers := []\<rparr>)"
  by (simp add: fire_next_def fire_def)

lemma fire_next_idle: "timers s = [] \<Longrightarrow> fire_next s = s"
  by (simp add: fire_next_def)

lemma timer_owned_callback:
  "timers s = [] \<Longrightarrow> timer_owned (timer_callback s)"
  using timer_callback_timers [of s]
  by (simp add: timer_owned_def [of "timer_callback s"])

lemma armed_callback: "timers s = [] \<Longrightarrow> armed (timer_callback s)"
  using timer_callback_timers [of s] by (simp add: armed_def)

lemma timer_owned_fire: "timer_owned s \<Longrightarrow> timer_owned (fire h s)"
proof (cases "h \<in> fst ` set (timers s)")
  case False
  assume "timer_owned s"
  with False show ?thesis by (simp add: fire_not_pending)
next
  case True
  assume "timer_owned s"
  with True obtain d where "timers s = [(h, d)]"
    by (auto simp: timer_owned_iff)
  then show ?thesis
    by (simp add: fire_pending timer_owned_callback)
qed

lemma armed_fire_next: "armed s \<Longrightarrow> armed (fire_next s)"
  by (auto simp: armed_iff [of s] fire_next_pending armed_callback)

lemma cursor_fire_next:
  "armed s \<Longrightarrow>
   intervalIndexRef (fire_next s) =
     (if intervalIndexRef s < last_index then intervalIndexRef s + 1 else intervalIndexRef s)"
  by (auto simp: armed_iff [of s] fire_next_pending)

lemma cursor_fires:
  "armed s \<Longrightarrow> cursor_ok s \<Longrightarrow>
   armed (fires n s) \<and> intervalIndexRef (fires n s) = min (intervalIndexRef s + int n) last_index"
proof (induction n)
  case 0
  then show ?case by (simp add: fires_def cursor_ok_def)
next
  case (Suc n)
  then have a: "armed (fires n s)"
    and c: "intervalIndexRef (fires n s) = min (intervalIndexRef s + int n) last_index"
    by simp_all
  have f: "fires (Suc n) s = fire_next (fires n s)" by (simp add: fires_def)
  from a c show ?case
    unfolding f by (simp add: armed_fire_next cursor_fire_next)
qed

lemma delay_fires:
  assumes "armed s" "cursor_ok s"
  shows "pending_delays (fires n s) =
           [PROGRESSIVE_INTERVALS ! nat (min (intervalIndexRef s + int n) last_index)]"
proof -
  from cursor_fires [OF assms, of n]
  have a: "armed (fires n s)"
    and c: "intervalIndexRef (fires n s) = min (intervalIndexRef s + int n) last_index"
    by simp_all
  from assms(2) have "0 \<le> min (intervalIndexRef s + int n) last_index"
    and "min (intervalIndexRef s + int n) last_index \<le> last_index"
    by (simp_all add: cursor_ok_def last_index_eq)
  then have "currentInterval (min (intervalIndexRef s + int n) last_index) =
      PROGRESSIVE_INTERVALS ! nat (min (intervalIndexRef s + int n) last_index)"
    by (rule interval_in_range)
  with a c show ?thesis
    by (auto simp: armed_iff pending_delays_def)
qed

lemma redraws_callback: "redraws (timer_callback s) = Suc (redraws s)"
  by (simp add: redraws_def timer_callback_effects split: option.splits)

lemma redraws_fire_next: "armed s \<Longrightarrow> redraws (fire_next s) = Suc (redraws s)"
  by (auto simp: armed_iff [of s] fire_next_pending redraws_callback) (simp add: redraws_def)

lemma redraws_fires: "armed s \<Longrightarrow> redraws (fires n s) = redraws s + n"
proof (induction n)
  case 0
  then show ?case by (simp add: fires_def)
next
  case (Suc n)
  have f: "fires (Suc n) s = fire_next (fires n s)" by (simp add: fires_def)
  have "armed (fires n s)" using Suc.prems
    by (induction n) (simp_all add: fires_def armed_fire_next)
  with Suc show ?case unfolding f by (simp add: redraws_fire_next)
qed

subsection \<open>Handlers\<close>

lemma timer_owned_reset: "timer_owned s \<Longrightarrow> timer_owned (resetToFastRendering s)"
  using resetToFastRendering_timers [of s]
  by (simp add: timer_owned_def [of "resetToFastRendering s"])

lemma armed_reset: "timer_owned s \<Longrightarrow> armed (resetToFastRendering s)"
  using resetToFastRendering_timers [of s] by (simp add: armed_def)

lemma redraws_reset: "redraws (resetToFastRendering s) = Suc (redraws s)"
  by (simp add: redraws_def resetToFastRendering_effects split: option.splits)

lemma reset_changes: "resetToFastRendering s \<noteq> s"
proof
  assume "resetToFastRendering s = s"
  then have "redraws (resetToFastRendering s) = redraws s" by simp
  then show False by (simp add: redraws_reset)
qed

lemma timer_owned_blur [simp]: "timer_owned (handleBlur s) = timer_owned s"
  by (simp add: timer_owned_def handleBlur_def split: list.splits)

lemma timer_owned_run_callback: "timer_owned s \<Longrightarrow> timer_owned (run_callback cb s)"
  by (cases cb) (simp_all add: handleFocus_def handleUserInteraction_def timer_owned_reset)

lemma timer_owned_callbacks: "timer_owned s \<Longrightarrow> timer_owned (fold run_callback cbs s)"
  by (induction cbs arbitrary: s) (simp_all add: timer_owned_run_callback)

lemma cursor_ok_run_callback: "cursor_ok s \<Longrightarrow> cursor_ok (run_callback cb s)"
  by (cases cb)
     (simp_all add: handleFocus_def handleUserInteraction_def handleBlur_def cursor_ok_def
        last_index_eq)

lemma cursor_ok_callbacks: "cursor_ok s \<Longrightarrow> cursor_ok (fold run_callback cbs s)"
  by (induction cbs arbitrary: s) (simp_all add: cursor_ok_run_callback)

lemma cursor_ok_timer_callback: "cursor_ok s \<Longrightarrow> cursor_ok (timer_callback s)"
  by (simp add: cursor_ok_def)

lemma cursor_ok_fire: "cursor_ok s \<Longrightarrow> cursor_ok (fire h s)"
  using cursor_ok_timer_callback [of "s\<lparr>timers := filter (\<lambda>t. fst t \<noteq> h) (timers s)\<rparr>"]
  by (simp add: fire_def cursor_ok_def)

lemma listeners_run_callback [simp]:
  "window_listeners (run_callback cb s) = window_listeners s"
  "bridge_listeners (run_callback cb s) = bridge_listeners s"
  by (cases cb; simp add: handleFocus_def handleUserInteraction_def handleBlur_def)+

lemma listeners_callbacks [simp]:
  "window_listeners (fold run_callback cbs s) = window_listeners s"
  "bridge_listeners (fold run_callback cbs s) = bridge_listeners s"
  by (induction cbs arbitrary: s) simp_all

lemma listeners_fire [simp]:
  "window_listeners (fire h s) = window_listeners s"
  "bridge_listeners (fire h s) = bridge_listeners s"
  by (simp_all add: fire_def)

subsection \<open>Attaching and detaching\<close>

lemma addEventListener_fields [simp]:
  "timerRef (addEventListener ty cb cap s) = timerRef s"
  "intervalIndexRef (addEventListener ty cb cap s) = intervalIndexRef s"
  "isActiveRef (addEventListener ty cb cap s) = isActiveRef s"
  "timers (addEventListener ty cb cap s) = timers s"
  "next_handle (addEventListener ty cb cap s) = next_handle s"
  "bridge_listeners (addEventListener ty cb cap s) = bridge_listeners s"
  "effects (addEventListener ty cb cap s) = effects s"
  by (simp_all add: addEventListener_def)

lemma removeEventListener_fields [simp]:
  "timerRef (removeEventListener ty cb cap s) = timerRef s"
  "intervalIndexRef (removeEventListener ty cb cap s) = intervalIndexRef s"
  "isActiveRef (removeEventListener ty cb cap s) = isActiveRef s"
  "timers (removeEventListener ty cb cap s) = timers s"
  "next_handle (removeEventListener ty cb cap s) = next_handle s"
  "bridge_listeners (removeEventListener ty cb cap s) = bridge_listeners s"
  "effects (removeEventListener ty cb cap s) = effects s"
  by (simp_all add: removeEventListener_def)

lemma add_all_fields [simp]:
  "timerRef (fold (\<lambda>ev. addEventListener ev cb cap) evs s) = timerRef s"
  "intervalIndexRef (fold (\<lambda>ev. addEventListener ev cb cap) evs s) = intervalIndexRef s"
  "isActiveRef (fold (\<lambda>ev. addEventListener ev cb cap) evs s) = isActiveRef s"
  "timers (fold (\<lambda>ev. addEventListener ev cb cap) evs s) = timers s"
  "next_handle (fold (\<lambda>ev. addEventListener ev cb cap) evs s) = next_handle s"
  "bridge_listeners (fold (\<lambda>ev. addEventListener ev cb cap) evs s) = bridge_listeners s"
  "effects (fold (\<lambda>ev. addEventListener ev cb cap) evs s) = effects s"
  by (induction evs arbitrary: s; simp)+

lemma remove_all_fields [simp]:
  "timerRef (fold (\<lambda>ev. removeEventListener ev cb cap) evs s) = timerRef s"
  "intervalIndexRef (fold (\<lambda>ev. removeEventListener ev cb cap) evs s) = intervalIndexRef s"
  "isActiveRef (fold (\<lambda>ev. removeEventListener ev cb cap) evs s) = isActiveRef s"
  "timers (fold (\<lambda>ev. removeEventListener ev cb cap) evs s) = timers s"
  "next_handle (fold (\<lambda>ev. removeEventListener ev cb cap) evs s) = next_handle s"
  "bridge_listeners (fold (\<lambda>ev. removeEventListener ev cb cap) evs s) = bridge_listeners s"
  "effects (fold (\<lambda>ev. removeEventListener ev cb cap) evs s) = effects s"
  by (induction evs arbitrary: s; simp)+

lemma remove_all_listeners:
  "window_listeners (fold (\<lambda>ev. removeEventListener ev cb cap) evs s) =
     filter (\<lambda>l. l \<notin> (\<lambda>ev. (ev, cb, cap)) ` set evs) (window_listeners s)"
  by (induction evs arbitrary: s) (auto simp: removeEventListener_def intro: filter_cong)

lemma mount_fields [simp]:
  "timerRef (mount s) = timerRef (scheduleNextRender s)"
  "intervalIndexRef (mount s) = intervalIndexRef s"
  "isActiveRef (mount s) = isActiveRef s"
  "timers (mount s) = timers (scheduleNextRender s)"
  "next_handle (mount s) = next_handle (scheduleNextRender s)"
  "effects (mount s) = effects (scheduleNextRender s)"
  by (simp_all add: mount_def Let_def on_def)

lemma cleanup_fields [simp]:
  "timerRef (cleanup s) = None"
  "intervalIndexRef (cleanup s) = intervalIndexRef s"
  "isActiveRef (cleanup s) = isActiveRef s"
  "timers (cleanup s) = timers (clearTimer s)"
  "next_handle (cleanup s) = next_handle s"
  "effects (cleanup s) = effects (clearTimer s)"
  by (simp_all add: cleanup_def Let_def unsubscribe_def)

lemma timer_owned_cong:
  "timers a = timers b \<Longrightarrow> timerRef a = timerRef b \<Longrightarrow> next_handle a = next_handle b \<Longrightarrow>
   timer_owned a = timer_owned b"
  by (simp add: timer_owned_iff)

lemma timer_owned_mount: "timer_owned s \<Longrightarrow> timer_owned (mount s)"
  using timer_owned_cong [of "mount s" "scheduleNextRender s"] timer_owned_schedule [of s]
  by simp

lemma timer_owned_cleanup: "timer_owned s \<Longrightarrow> timer_owned (cleanup s)"
  by (simp add: timer_owned_def [of "cleanup s"] timers_clearTimer)

lemma add_all_listeners:
  "window_listeners (fold (\<lambda>ev. addEventListener ev cb cap) evs s) =
     fold (\<lambda>ev. add_listener (ev, cb, cap)) evs (window_listeners s)"
  by (induction evs arbitrary: s) (simp_all add: addEventListener_def)

lemma mount_listeners:
  "window_listeners (mount s) =
     fold (\<lambda>ev. add_listener (ev, HandleUserInteraction, False)) interactionEvents
       (add_listener (''blur'', HandleBlur, False)
         (add_listener (''focus'', HandleFocus, False) (window_listeners s)))"
  "bridge_listeners (mount s) =
     bridge_listeners s @ [(''self:request-reset-error-boundary'', HandleHMR)]"
  by (simp_all add: mount_def Let_def add_all_listeners addEventListener_def on_def)

lemma cleanup_listeners:
  "window_listeners (cleanup s) =
     filter (\<lambda>l. l \<notin> (\<lambda>ev. (ev, HandleUserInteraction, False)) ` set interactionEvents)
       (filter (\<lambda>l. l \<noteq> (''blur'', HandleBlur, False))
         (filter (\<lambda>l. l \<noteq> (''focus'', HandleFocus, False)) (window_listeners s)))"
  "bridge_listeners (cleanup s) =
     remove1 (''self:request-reset-error-boundary'', HandleHMR) (bridge_listeners s)"
  by (simp_all add: cleanup_def Let_def remove_all_listeners removeEventListener_def
      unsubscribe_def)

lemma started_listeners:
  "window_listeners started =
     [(''focus'', HandleFocus, False), (''blur'', HandleBlur, False),
      (''mousemove'', HandleUserInteraction, False),
      (''mousedown'', HandleUserInteraction, False),
      (''mouseup'', HandleUserInteraction, False),
      (''wheel'', HandleUserInteraction, False),
      (''keydown'', HandleUserInteraction, False),
      (''touchstart'', HandleUserInteraction, False),
      (''touchmove'', HandleUserInteraction, False)]"
  "bridge_listeners started = [(''self:request-reset-error-boundary'', HandleHMR)]"
  by (simp_all add: started_def mount_listeners initial_def add_listener_def
      interactionEvents_def)

lemma cleanup_detaches: "attached s \<Longrightarrow> detached (cleanup s)"
  by (simp add: attached_def detached_def started_listeners cleanup_listeners
      interactionEvents_def)

lemma started_fields:
  "timerRef started = Some 1" "intervalIndexRef started = 0" "isActiveRef started"
  "timers started = [(1, 16)]" "next_handle started = 2" "effects started = [SetTimeout 1 16]"
  by (simp_all add: started_def initial_def clearTimer_def currentInterval_def js_index_def
      PROGRESSIVE_INTERVALS_def)

lemma started_invariants:
  "timer_owned started" "armed started" "cursor_ok started" "attached started"
  by (simp_all add: timer_owned_def armed_def cursor_ok_def attached_def started_fields
      last_index_eq currentInterval_def js_index_def PROGRESSIVE_INTERVALS_def)

subsection \<open>Signals\<close>

lemma dispatch_focus: "attached s \<Longrightarrow> dispatch ''focus'' s = handleFocus s"
  by (simp add: dispatch_def attached_def started_listeners)

lemma dispatch_blur: "attached s \<Longrightarrow> dispatch ''blur'' s = handleBlur s"
  by (simp add: dispatch_def attached_def started_listeners)

lemma dispatch_interaction:
  assumes "attached s" "ev \<in> set interactionEvents"
  shows "dispatch ev s = handleUserInteraction s"
proof -
  from assms(1) have
    "dispatch ''mousemove'' s = handleUserInteraction s"
    "dispatch ''mousedown'' s = handleUserInteraction s"
    "dispatch ''mouseup'' s = handleUserInteraction s"
    "dispatch ''wheel'' s = handleUserInteraction s"
    "dispatch ''keydown'' s = handleUserInteraction s"
    "dispatch ''touchstart'' s = handleUserInteraction s"
    "dispatch ''touchmove'' s = handleUserInteraction s"
    by (simp_all add: dispatch_def attached_def started_listeners)
  moreover from assms(2) have
    "ev = ''mousemove'' \<or> ev = ''mousedown'' \<or> ev = ''mouseup'' \<or> ev = ''wheel'' \<or>
     ev = ''keydown'' \<or> ev = ''touchstart'' \<or> ev = ''touchmove''"
    by (simp add: interactionEvents_def)
  ultimately show ?thesis by blast
qed

lemma emit_reset:
  "attached s \<Longrightarrow> emit ''self:request-reset-error-boundary'' s = resetToFastRendering s"
  by (simp add: emit_def attached_def started_listeners)

lemma dispatch_detached: "detached s \<Longrightarrow> dispatch ty s = s"
  by (simp add: dispatch_def detached_def)

lemma emit_detached: "detached s \<Longrightarrow> emit name s = s"
  by (simp add: emit_def detached_def)

lemma listeners_step:
  "e \<noteq> Unmount \<Longrightarrow> window_listeners (step e s) = window_listeners s"
  "e \<noteq> Unmount \<Longrightarrow> bridge_listeners (step e s) = bridge_listeners s"
  by (cases e; simp add: dispatch_def emit_def)+

lemma attached_step: "attached s \<Longrightarrow> e \<noteq> Unmount \<Longrightarrow> attached (step e s)"
  by (simp add: attached_def listeners_step)

lemma timer_owned_step: "timer_owned s \<Longrightarrow> timer_owned (step e s)"
  by (cases e)
     (simp_all add: dispatch_def emit_def timer_owned_callbacks timer_owned_fire
        timer_owned_cleanup)

lemma cursor_ok_step: "cursor_ok s \<Longrightarrow> cursor_ok (step e s)"
  by (cases e)
     (simp_all add: dispatch_def emit_def cursor_ok_callbacks cursor_ok_fire,
      simp add: cursor_ok_def)

lemma timer_owned_run: "timer_owned s \<Longrightarrow> timer_owned (run evs s)"
  unfolding run_def by (induction evs arbitrary: s) (simp_all add: timer_owned_step)

lemma cursor_ok_run: "cursor_ok s \<Longrightarrow> cursor_ok (run evs s)"
  unfolding run_def by (induction evs arbitrary: s) (simp_all add: cursor_ok_step)

lemma attached_run: "attached s \<Longrightarrow> Unmount \<notin> set evs \<Longrightarrow> attached (run evs s)"
  unfolding run_def
  by (induction evs arbitrary: s) (auto simp: attached_step)

lemma run_append: "run (xs @ ys) s = run ys (run xs s)"
  by (simp add: run_def)

lemma timer_owned_length: "timer_owned s \<Longrightarrow> length (timers s) \<le> 1"
  by (auto simp: timer_owned_iff)

text \<open>Once detached with no timer left, nothing moves the scheduler any more.\<close>

lemma dead_step:
  assumes "detached s" "timers s = []" "timerRef s = None"
  shows "step e s = s"
proof (cases e)
  case (Window ty)
  with assms show ?thesis by (simp add: dispatch_detached)
next
  case (Bridge name)
  with assms show ?thesis by (simp add: emit_detached)
next
  case (Timer h)
  with assms show ?thesis by (simp add: fire_def)
next
  case Unmount
  from assms have "clearTimer s = s" by (simp add: clearTimer_def)
  with assms Unmount show ?thesis
    by (simp add: cleanup_def Let_def unsubscribe_def removeEventListener_def detached_def
        interactionEvents_def)
qed

lemma dead_run:
  "detached s \<Longrightarrow> timers s = [] \<Longrightarrow> timerRef s = None \<Longrightarrow> run evs s = s"
  unfolding run_def by (induction evs) (simp_all add: dead_step)

section \<open>Interval lookup\<close>

text \<open>
  C8: whatever the cursor is, also past the last index of the table or below 0, the
  interval looked up for the next timer is a positive number of milliseconds. Outside the
  table the array read gives nothing and the lookup falls back to 1000, which is the last
  entry of the table, the floor interval. That value is the delay \<open>scheduleNextRender\<close>
  arms the new timer with.
\<close>

theorem interval_lookup_total:
  "0 < currentInterval i \<and>
   (i < 0 \<or> int (length PROGRESSIVE_INTERVALS) \<le> i \<longrightarrow>
      js_index PROGRESSIVE_INTERVALS i = None \<and> currentInterval i = 1000) \<and>
   last PROGRESSIVE_INTERVALS = 1000 \<and>
   last (timers (scheduleNextRender s)) = (next_handle s, currentInterval (intervalIndexRef s))"
proof -
  have "i < 0 \<or> int (length PROGRESSIVE_INTERVALS) \<le> i \<longrightarrow>
      js_index PROGRESSIVE_INTERVALS i = None \<and> currentInterval i = 1000"
    by (auto simp: js_index_def currentInterval_def)
  moreover have "last PROGRESSIVE_INTERVALS = 1000"
    by (simp add: PROGRESSIVE_INTERVALS_def)
  ultimately show ?thesis by (simp add: interval_positive)
qed

theorem interval_lookup_total_witness:
  "js_index PROGRESSIVE_INTERVALS 8 = None \<and> currentInterval 8 = 1000 \<and>
   0 < currentInterval 8 \<and> currentInterval (- 1) = 1000 \<and>
   last (timers (scheduleNextRender (initial\<lparr>intervalIndexRef := 8\<rparr>))) = (1, 1000)"
  using interval_lookup_total [of 8 "initial\<lparr>intervalIndexRef := 8\<rparr>"]
    interval_lookup_total [of "- 1" initial]
  by (simp add: length_intervals initial_def)

section \<open>Progressive slowdown\<close>

text \<open>
  C1: take a scheduler whose timer is pending, armed with the interval of a cursor that
  lies within the table. When that timer fires, the hook requests exactly one redraw,
  then moves the cursor up by one unless it is at the last index of the table (where it
  stays), then arms one new timer with the table's interval at the cursor as it is
  after that. The log of the turn is: invalidate, clearTimeout of the handle that has
  just fired, setTimeout with the new interval. Hence, counted from a cursor of 0 (after
  the start or after a reset), the delay that runs before the N-th fire in a row is
  \<open>table[min(N-1, length-1)]\<close>; from any cursor the delays never decrease from one fire to
  the next, and once the last index is reached they are the last entry of the table
  for good.
\<close>

theorem timer_fire_backoff:
  assumes "armed s" and "cursor_ok s"
  shows
    "(\<exists>h. timers s = [(h, PROGRESSIVE_INTERVALS ! nat (intervalIndexRef s))] \<and>
          fire_next s = fire h s \<and>
          effects (fire h s) =
            effects s @ [Invalidate, ClearTimeout h,
              SetTimeout (next_handle s)
                (PROGRESSIVE_INTERVALS ! nat (intervalIndexRef (fire h s)))] \<and>
          timers (fire h s) =
            [(next_handle s, PROGRESSIVE_INTERVALS ! nat (intervalIndexRef (fire h s)))]) \<and>
     redraws (fire_next s) = redraws s + 1 \<and>
     intervalIndexRef (fire_next s) =
       (if intervalIndexRef s \<noteq> last_index then intervalIndexRef s + 1
        else intervalIndexRef s) \<and>
     (\<forall>N. 1 \<le> N \<and> intervalIndexRef s = 0 \<longrightarrow>
        pending_delays (fires (N - 1) s) =
          [PROGRESSIVE_INTERVALS ! min (N - 1) (length PROGRESSIVE_INTERVALS - 1)]) \<and>
     (\<forall>n. \<exists>d d'. pending_delays (fires n s) = [d] \<and>
        pending_delays (fires (Suc n) s) = [d'] \<and> d \<le> d') \<and>
     (\<forall>n. last_index \<le> intervalIndexRef s + int n \<longrightarrow>
        pending_delays (fires n s) = [last PROGRESSIVE_INTERVALS])"
proof -
  from assms(1) obtain h where
    t: "timers s = [(h, currentInterval (intervalIndexRef s))]" and r: "timerRef s = Some h"
    by (auto simp: armed_iff)
  from assms(2) have c: "0 \<le> intervalIndexRef s" "intervalIndexRef s \<le> last_index"
    by (simp_all add: cursor_ok_def)
  let ?s0 = "s\<lparr>timers := []\<rparr>"
  have f: "fire h s = timer_callback ?s0" "fire_next s = timer_callback ?s0"
    using t by (simp_all add: fire_pending fire_next_pending)
  have c': "0 \<le> intervalIndexRef (timer_callback ?s0)"
    "intervalIndexRef (timer_callback ?s0) \<le> last_index"
    using c by simp_all
  have i: "currentInterval (intervalIndexRef s) = PROGRESSIVE_INTERVALS ! nat (intervalIndexRef s)"
    using c by (rule interval_in_range)
  have i': "currentInterval (intervalIndexRef (timer_callback ?s0)) =
      PROGRESSIVE_INTERVALS ! nat (intervalIndexRef (timer_callback ?s0))"
    using c' by (rule interval_in_range)
  have e: "effects (fire h s) =
      effects s @ [Invalidate, ClearTimeout h,
        SetTimeout (next_handle s) (PROGRESSIVE_INTERVALS ! nat (intervalIndexRef (fire h s)))]"
    unfolding f using i' r by (simp add: timer_callback_effects [of ?s0])
  have q: "timers (fire h s) =
      [(next_handle s, PROGRESSIVE_INTERVALS ! nat (intervalIndexRef (fire h s)))]"
    unfolding f using i' timer_callback_timers [of ?s0] by simp
  have step: "\<exists>h. timers s = [(h, PROGRESSIVE_INTERVALS ! nat (intervalIndexRef s))] \<and>
      fire_next s = fire h s \<and>
      effects (fire h s) =
        effects s @ [Invalidate, ClearTimeout h,
          SetTimeout (next_handle s)
            (PROGRESSIVE_INTERVALS ! nat (intervalIndexRef (fire h s)))] \<and>
      timers (fire h s) =
        [(next_handle s, PROGRESSIVE_INTERVALS ! nat (intervalIndexRef (fire h s)))]"
    using t i f e q by auto
  have rd: "redraws (fire_next s) = redraws s + 1"
    using assms(1) by (simp add: redraws_fire_next)
  have cur: "intervalIndexRef (fire_next s) =
      (if intervalIndexRef s \<noteq> last_index then intervalIndexRef s + 1 else intervalIndexRef s)"
    using c by (simp add: cursor_fire_next [OF assms(1)])
  have d: "pending_delays (fires n s) =
      [PROGRESSIVE_INTERVALS ! nat (min (intervalIndexRef s + int n) last_index)]" for n
    using assms by (rule delay_fires)
  have nth: "\<forall>N. 1 \<le> N \<and> intervalIndexRef s = 0 \<longrightarrow>
      pending_delays (fires (N - 1) s) =
        [PROGRESSIVE_INTERVALS ! min (N - 1) (length PROGRESSIVE_INTERVALS - 1)]"
  proof (intro allI impI)
    fix N :: nat
    assume "1 \<le> N \<and> intervalIndexRef s = 0"
    then have "nat (min (intervalIndexRef s + int (N - 1)) last_index) =
        min (N - 1) (length PROGRESSIVE_INTERVALS - 1)"
      by (simp add: last_index_eq length_intervals)
    with d [of "N - 1"] show "pending_delays (fires (N - 1) s) =
        [PROGRESSIVE_INTERVALS ! min (N - 1) (length PROGRESSIVE_INTERVALS - 1)]"
      by simp
  qed
  have mono: "\<forall>n. \<exists>d d'. pending_delays (fires n s) = [d] \<and>
      pending_delays (fires (Suc n) s) = [d'] \<and> d \<le> d'"
  proof
    fix n
    let ?a = "nat (min (intervalIndexRef s + int n) last_index)"
    let ?b = "nat (min (intervalIndexRef s + int (Suc n)) last_index)"
    have "?a \<le> ?b" "?b < length PROGRESSIVE_INTERVALS"
      using c by (simp_all add: last_index_eq length_intervals)
    then have "PROGRESSIVE_INTERVALS ! ?a \<le> PROGRESSIVE_INTERVALS ! ?b"
      using intervals_sorted by (simp add: sorted_nth_mono)
    with d [of n] d [of "Suc n"]
    show "\<exists>d d'. pending_delays (fires n s) = [d] \<and>
        pending_delays (fires (Suc n) s) = [d'] \<and> d \<le> d'"
      by simp
  qed
  have sat: "\<forall>n. last_index \<le> intervalIndexRef s + int n \<longrightarrow>
      pending_delays (fires n s) = [last PROGRESSIVE_INTERVALS]"
  proof (intro allI impI)
    fix n
    assume "last_index \<le> intervalIndexRef s + int n"
    then have "nat (min (intervalIndexRef s + int n) last_index) = 7"
      by (simp add: last_index_eq)
    with d [of n] show "pending_delays (fires n s) = [last PROGRESSIVE_INTERVALS]"
      by (simp add: PROGRESSIVE_INTERVALS_def)
  qed
  from step rd cur nth mono sat show ?thesis by blast
qed

theorem timer_fire_backoff_witness:
  "armed started \<and> cursor_ok started \<and>
   timers started = [(1, 16)] \<and>
   effects (fire 1 started) =
     [SetTimeout 1 16, Invalidate, ClearTimeout 1, SetTimeout 2 16] \<and>
   timers (fire 1 started) = [(2, 16)] \<and>
   redraws (fire_next started) = redraws started + 1 \<and>
   intervalIndexRef (fire_next started) = 1 \<and>
   pending_delays (fires 2 started) = [33] \<and>
   pending_delays (fires 9 started) = [1000]"
proof -
  note w = timer_fire_backoff [OF started_invariants(2) started_invariants(3)]
  from w have "intervalIndexRef (fire_next started) =
      (if intervalIndexRef started \<noteq> last_index then intervalIndexRef started + 1
       else intervalIndexRef started)"
    by blast
  then have c: "intervalIndexRef (fire_next started) = 1"
    by (simp add: started_fields last_index_eq)
  from w obtain h where h: "timers started = [(h, PROGRESSIVE_INTERVALS ! nat (intervalIndexRef started))]"
    "fire_next started = fire h started"
    "effects (fire h started) =
       effects started @ [Invalidate, ClearTimeout h,
         SetTimeout (next_handle started)
           (PROGRESSIVE_INTERVALS ! nat (intervalIndexRef (fire h started)))]"
    "timers (fire h started) =
       [(next_handle started, PROGRESSIVE_INTERVALS ! nat (intervalIndexRef (fire h started)))]"
    by blast
  from h(1) have h1: "h = 1" by (simp add: started_fields)
  from h(2) c have c1: "intervalIndexRef (fire 1 started) = 1" by (simp add: h1)
  have e: "effects (fire 1 started) =
      [SetTimeout 1 16, Invalidate, ClearTimeout 1, SetTimeout 2 16]"
    using h(3) unfolding h1 c1 by (simp add: started_fields PROGRESSIVE_INTERVALS_def)
  have t: "timers (fire 1 started) = [(2, 16)]"
    using h(4) unfolding h1 c1 by (simp add: started_fields PROGRESSIVE_INTERVALS_def)
  from w have r: "redraws (fire_next started) = redraws started + 1" by blast
  from w have "1 \<le> (3::nat) \<and> intervalIndexRef started = 0 \<longrightarrow>
      pending_delays (fires (3 - 1) started) =
        [PROGRESSIVE_INTERVALS ! min (3 - 1) (length PROGRESSIVE_INTERVALS - 1)]"
    by blast
  then have d2: "pending_delays (fires 2 started) = [33]"
    by (simp add: started_fields PROGRESSIVE_INTERVALS_def)
  from w have "last_index \<le> intervalIndexRef started + int 9 \<longrightarrow>
      pending_delays (fires 9 started) = [last PROGRESSIVE_INTERVALS]"
    by blast
  then have d9: "pending_delays (fires 9 started) = [1000]"
    by (simp add: started_fields last_index_eq PROGRESSIVE_INTERVALS_def)
  from e t r c d2 d9 show ?thesis
    by (simp add: started_invariants started_fields)
qed

section \<open>Signals that restore the fast cadence\<close>

text \<open>
  C3: \<open>resetToFastRendering\<close>, from any state in which the hook owns the pending timer (if
  there is one), sets the cursor to 0 and the activity flag to true, cancels the pending
  timer (its handle is cleared and is no longer in the queue), arms exactly one new timer
  with the first interval of the table, 16 ms, and requests exactly one redraw in the same
  turn, after the timer is armed. When the new timer fires later, one more redraw is
  requested.
\<close>

theorem reset_to_fast:
  assumes "timer_owned s"
  shows
    "intervalIndexRef (resetToFastRendering s) = 0 \<and>
     isActiveRef (resetToFastRendering s) \<and>
     timerRef (resetToFastRendering s) = Some (next_handle s) \<and>
     timers (resetToFastRendering s) = [(next_handle s, PROGRESSIVE_INTERVALS ! 0)] \<and>
     PROGRESSIVE_INTERVALS ! 0 = 16 \<and>
     fst ` set (timers s) \<inter> fst ` set (timers (resetToFastRendering s)) = {} \<and>
     effects (resetToFastRendering s) =
       effects s @ (case timerRef s of None \<Rightarrow> [] | Some h \<Rightarrow> [ClearTimeout h]) @
         [SetTimeout (next_handle s) (PROGRESSIVE_INTERVALS ! 0), Invalidate] \<and>
     (\<forall>t \<in> set (timers s). timerRef s = Some (fst t)) \<and>
     redraws (resetToFastRendering s) = redraws s + 1 \<and>
     redraws (fire_next (resetToFastRendering s)) = redraws s + 2"
proof -
  have z: "currentInterval 0 = PROGRESSIVE_INTERVALS ! 0"
    using interval_in_range [of 0] by (simp add: last_index_eq)
  have t: "timers (resetToFastRendering s) = [(next_handle s, PROGRESSIVE_INTERVALS ! 0)]"
    using assms by (simp add: resetToFastRendering_timers z)
  have f: "fst ` set (timers s) \<inter> fst ` set (timers (resetToFastRendering s)) = {}"
    unfolding t using assms by (auto simp: timer_owned_iff)
  have e: "effects (resetToFastRendering s) =
      effects s @ (case timerRef s of None \<Rightarrow> [] | Some h \<Rightarrow> [ClearTimeout h]) @
        [SetTimeout (next_handle s) (PROGRESSIVE_INTERVALS ! 0), Invalidate]"
    by (simp add: resetToFastRendering_effects z)
  have o: "\<forall>t \<in> set (timers s). timerRef s = Some (fst t)"
    using assms by (auto simp: timer_owned_iff)
  have r: "redraws (fire_next (resetToFastRendering s)) = redraws s + 2"
    using armed_reset [OF assms] by (simp add: redraws_fire_next redraws_reset)
  have "PROGRESSIVE_INTERVALS ! 0 = 16" by (simp add: PROGRESSIVE_INTERVALS_def)
  with t f e o r show ?thesis by (simp add: redraws_reset)
qed

theorem reset_to_fast_witness:
  "timer_owned (fires 4 started) \<and>
   intervalIndexRef (fires 4 started) = 4 \<and>
   timers (fires 4 started) = [(5, 133)] \<and>
   intervalIndexRef (resetToFastRendering (fires 4 started)) = 0 \<and>
   timers (resetToFastRendering (fires 4 started)) = [(6, 16)] \<and>
   redraws (resetToFastRendering (fires 4 started)) = 5"
proof -
  have v: "fires 4 started =
    \<lparr>timerRef = Some 5, intervalIndexRef = 4, isActiveRef = True, timers = [(5, 133)],
      next_handle = 6, window_listeners = window_listeners started,
      bridge_listeners = bridge_listeners started,
      effects = [SetTimeout 1 16, Invalidate, ClearTimeout 1, SetTimeout 2 16,
        Invalidate, ClearTimeout 2, SetTimeout 3 33, Invalidate, ClearTimeout 3,
        SetTimeout 4 66, Invalidate, ClearTimeout 4, SetTimeout 5 133]\<rparr>"
    by code_simp
  have o: "timer_owned (fires 4 started)"
    unfolding v by (simp add: timer_owned_def)
  from reset_to_fast [OF o] o show ?thesis
    unfolding v by (simp add: PROGRESSIVE_INTERVALS_def redraws_def)
qed

text \<open>
  C2: the handler of the interaction events runs \<open>resetToFastRendering\<close> exactly when the
  activity flag is false or the cursor is above 0. Otherwise, in particular when the flag
  is true and the cursor is 0, it leaves the whole state as it is: no redraw is
  requested, and the pending timer, the cursor and the flag are untouched. On a mounted
  scheduler each of the seven interaction events of \<open>window\<close> runs this handler.
\<close>

theorem interaction_policy:
  "(handleUserInteraction s = resetToFastRendering s \<longleftrightarrow>
      \<not> isActiveRef s \<or> 0 < intervalIndexRef s) \<and>
   (isActiveRef s \<and> intervalIndexRef s = 0 \<longrightarrow>
      handleUserInteraction s = s \<and>
      redraws (handleUserInteraction s) = redraws s \<and>
      effects (handleUserInteraction s) = effects s \<and>
      timers (handleUserInteraction s) = timers s \<and>
      timerRef (handleUserInteraction s) = timerRef s \<and>
      intervalIndexRef (handleUserInteraction s) = 0 \<and>
      isActiveRef (handleUserInteraction s)) \<and>
   (attached s \<longrightarrow>
      (\<forall>ev \<in> set interactionEvents. step (Window ev) s = handleUserInteraction s))"
proof -
  have "handleUserInteraction s = resetToFastRendering s \<longleftrightarrow>
      \<not> isActiveRef s \<or> 0 < intervalIndexRef s"
    using reset_changes [of s] by (auto simp: handleUserInteraction_def)
  moreover have "isActiveRef s \<and> intervalIndexRef s = 0 \<longrightarrow> handleUserInteraction s = s"
    by (simp add: handleUserInteraction_def)
  moreover have "attached s \<longrightarrow>
      (\<forall>ev \<in> set interactionEvents. step (Window ev) s = handleUserInteraction s)"
    by (simp add: dispatch_interaction)
  ultimately show ?thesis by simp
qed

theorem interaction_policy_witness:
  "isActiveRef started \<and> intervalIndexRef started = 0 \<and> attached started \<and>
   ''mousemove'' \<in> set interactionEvents \<and>
   step (Window ''mousemove'') started = started \<and>
   handleUserInteraction (fire_next started) = resetToFastRendering (fire_next started) \<and>
   0 < intervalIndexRef (fire_next started)"
proof -
  have c: "intervalIndexRef (fire_next started) = 1"
    using cursor_fire_next [OF started_invariants(2)]
    by (simp add: started_fields last_index_eq)
  have m: "''mousemove'' \<in> set interactionEvents"
    by (simp add: interactionEvents_def)
  from interaction_policy [of started] m
  have "step (Window ''mousemove'') started = started"
    using started_invariants(4) started_fields(2,3) by metis
  moreover from interaction_policy [of "fire_next started"] c
  have "handleUserInteraction (fire_next started) = resetToFastRendering (fire_next started)"
    by simp
  ultimately show ?thesis
    using c m by (simp add: started_invariants started_fields)
qed

text \<open>
  C4, as the code has it: the focus listener of \<open>window\<close> runs \<open>resetToFastRendering\<close>
  itself, not the handler of the interaction events. On a mounted scheduler a focus
  signal therefore always requests one redraw at once, cancels the pending timer and
  arms a new one with the first interval of the table, whatever the flag and the cursor
  are, also when the flag is true and the cursor is 0.
\<close>

theorem focus_always_resets:
  assumes "attached s" and "timer_owned s"
  shows
    "step (Window ''focus'') s = resetToFastRendering s \<and>
     step (Window ''focus'') s \<noteq> s \<and>
     redraws (step (Window ''focus'') s) = redraws s + 1 \<and>
     timers (step (Window ''focus'') s) = [(next_handle s, PROGRESSIVE_INTERVALS ! 0)] \<and>
     fst ` set (timers s) \<inter> fst ` set (timers (step (Window ''focus'') s)) = {} \<and>
     intervalIndexRef (step (Window ''focus'') s) = 0 \<and>
     isActiveRef (step (Window ''focus'') s)"
proof -
  have f: "step (Window ''focus'') s = resetToFastRendering s"
    using assms(1) by (simp add: dispatch_focus handleFocus_def)
  have z: "currentInterval 0 = PROGRESSIVE_INTERVALS ! 0"
    using interval_in_range [of 0] by (simp add: last_index_eq)
  have t: "timers (resetToFastRendering s) = [(next_handle s, PROGRESSIVE_INTERVALS ! 0)]"
    using assms(2) by (simp add: resetToFastRendering_timers z)
  have "fst ` set (timers s) \<inter> fst ` set (timers (resetToFastRendering s)) = {}"
    unfolding t using assms(2) by (auto simp: timer_owned_iff)
  with t show ?thesis
    unfolding f using reset_changes [of s] by (simp add: redraws_reset)
qed

theorem focus_always_resets_witness:
  "attached (handleBlur started) \<and> timer_owned (handleBlur started) \<and>
   \<not> isActiveRef (handleBlur started) \<and>
   isActiveRef (step (Window ''focus'') (handleBlur started)) \<and>
   timers (step (Window ''focus'') (handleBlur started)) = [(2, 16)] \<and>
   redraws (step (Window ''focus'') (handleBlur started)) = 1"
proof -
  have a: "attached (handleBlur started)"
    using started_invariants(4) by (simp add: attached_def handleBlur_def)
  have o: "timer_owned (handleBlur started)"
    using started_invariants(1) by simp
  from focus_always_resets [OF a o]
  have r: "redraws (step (Window ''focus'') (handleBlur started)) =
      redraws (handleBlur started) + 1"
    and t: "timers (step (Window ''focus'') (handleBlur started)) =
      [(next_handle (handleBlur started), PROGRESSIVE_INTERVALS ! 0)]"
    and i: "isActiveRef (step (Window ''focus'') (handleBlur started))"
    by blast+
  have "redraws (handleBlur started) = 0" "next_handle (handleBlur started) = 2"
    "\<not> isActiveRef (handleBlur started)" "PROGRESSIVE_INTERVALS ! 0 = 16"
    by (simp_all add: handleBlur_def started_fields redraws_def PROGRESSIVE_INTERVALS_def)
  with r t i a o show ?thesis by simp
qed

text \<open>
  The claim C4 as it is written fails right after the start: the flag is true, the cursor
  is 0 and timer 1 is pending; a focus signal requests a redraw, cancels timer 1 and arms
  timer 2.
\<close>

theorem focus_at_full_speed_counterexample:
  "isActiveRef started \<and> intervalIndexRef started = 0 \<and>
   timers started = [(1, 16)] \<and> redraws started = 0 \<and>
   step (Window ''focus'') started \<noteq> started \<and>
   redraws (step (Window ''focus'') started) = 1 \<and>
   timers (step (Window ''focus'') started) = [(2, 16)] \<and>
   effects (step (Window ''focus'') started) =
     [SetTimeout 1 16, ClearTimeout 1, SetTimeout 2 16, Invalidate]"
proof -
  have f: "step (Window ''focus'') started = resetToFastRendering started"
    using started_invariants(4) by (simp add: dispatch_focus handleFocus_def)
  have z: "currentInterval 0 = 16"
    by (simp add: currentInterval_def js_index_def PROGRESSIVE_INTERVALS_def)
  show ?thesis
    unfolding f using reset_changes [of started]
    by (simp add: started_fields redraws_reset resetToFastRendering_effects z
        resetToFastRendering_timers started_invariants redraws_def)
qed

section \<open>Quiescence\<close>

lemma fire_next_blur: "fire_next (handleBlur s) = handleBlur (fire_next s)"
  by (simp add: fire_next_def fire_def handleBlur_def timer_callback_def
      scheduleNextRender_def clearTimer_def clearTimeout_def setTimeout_def invalidate_def
      Let_def split: list.splits option.splits)

lemma fires_blur: "fires n (handleBlur s) = handleBlur (fires n s)"
  by (induction n) (simp_all add: fires_def fire_next_blur)

text \<open>
  C5: the blur handler sets the activity flag to false and changes nothing else: the
  cursor, \<open>timerRef\<close>, the queue of pending timers and the effect log are the same, so no
  timer is cancelled or armed and no redraw is requested. The slowdown goes on as if
  nothing had happened: any number of timer fires after the blur lead to the state they
  would have led to without it, but for the flag. On a mounted scheduler the blur event
  of \<open>window\<close> runs this handler.
\<close>

theorem blur_is_passive:
  "handleBlur s = s\<lparr>isActiveRef := False\<rparr> \<and>
   \<not> isActiveRef (handleBlur s) \<and>
   intervalIndexRef (handleBlur s) = intervalIndexRef s \<and>
   timerRef (handleBlur s) = timerRef s \<and>
   timers (handleBlur s) = timers s \<and>
   next_handle (handleBlur s) = next_handle s \<and>
   effects (handleBlur s) = effects s \<and>
   redraws (handleBlur s) = redraws s \<and>
   (\<forall>n. fires n (handleBlur s) = (fires n s)\<lparr>isActiveRef := False\<rparr>) \<and>
   (attached s \<longrightarrow> step (Window ''blur'') s = handleBlur s)"
proof -
  have "\<forall>n. fires n (handleBlur s) = (fires n s)\<lparr>isActiveRef := False\<rparr>"
    using fires_blur [of _ s] by (simp add: handleBlur_def)
  moreover have "attached s \<longrightarrow> step (Window ''blur'') s = handleBlur s"
    by (simp add: dispatch_blur)
  ultimately show ?thesis
    by (simp add: handleBlur_def redraws_def)
qed

theorem blur_is_passive_witness:
  "attached started \<and>
   step (Window ''blur'') started = started\<lparr>isActiveRef := False\<rparr> \<and>
   timers (step (Window ''blur'') started) = [(1, 16)] \<and>
   fires 3 (step (Window ''blur'') started) = (fires 3 started)\<lparr>isActiveRef := False\<rparr>"
proof -
  from blur_is_passive [of started] started_invariants(4)
  have "step (Window ''blur'') started = handleBlur started"
    and "handleBlur started = started\<lparr>isActiveRef := False\<rparr>"
    and "fires 3 (handleBlur started) = (fires 3 started)\<lparr>isActiveRef := False\<rparr>"
    by blast+
  then show ?thesis
    by (simp add: started_invariants started_fields)
qed

section \<open>The activity flag\<close>

lemma dispatch_other:
  assumes "attached s" "ty \<noteq> ''focus''" "ty \<noteq> ''blur''" "ty \<notin> set interactionEvents"
  shows "dispatch ty s = s"
proof -
  from assms(2-4) have "''focus'' \<noteq> ty" "''blur'' \<noteq> ty" "''mousemove'' \<noteq> ty"
    "''mousedown'' \<noteq> ty" "''mouseup'' \<noteq> ty" "''wheel'' \<noteq> ty" "''keydown'' \<noteq> ty"
    "''touchstart'' \<noteq> ty" "''touchmove'' \<noteq> ty"
    by (auto simp: interactionEvents_def)
  moreover from assms(1) have "filter (\<lambda>l. fst l = ty) (window_listeners s) =
      filter (\<lambda>l. fst l = ty) (window_listeners started)"
    by (simp add: attached_def)
  ultimately show ?thesis
    by (simp add: dispatch_def started_listeners)
qed

lemma dispatch_attached:
  assumes "attached s"
  shows "dispatch ty s =
    (if ty = ''focus'' then resetToFastRendering s
     else if ty = ''blur'' then handleBlur s
     else if ty \<in> set interactionEvents then handleUserInteraction s
     else s)"
  using assms
  by (simp add: dispatch_focus dispatch_blur dispatch_interaction dispatch_other handleFocus_def)

lemma emit_attached:
  assumes "attached s"
  shows "emit name s =
    (if name = ''self:request-reset-error-boundary'' then resetToFastRendering s else s)"
proof (cases "name = ''self:request-reset-error-boundary''")
  case True
  with assms show ?thesis by (simp add: emit_reset)
next
  case False
  then have "''self:request-reset-error-boundary'' \<noteq> name" by blast
  with assms False show ?thesis
    by (simp add: emit_def attached_def started_listeners)
qed

lemma flag_fire [simp]: "isActiveRef (fire h s) = isActiveRef s"
  by (simp add: fire_def)

lemma flag_fire_next [simp]: "isActiveRef (fire_next s) = isActiveRef s"
  by (simp add: fire_next_def split: list.splits)

lemma flag_fires [simp]: "isActiveRef (fires n s) = isActiveRef s"
  by (induction n) (simp_all add: fires_def)

lemma flag_step_down:
  assumes "attached s" "isActiveRef s" "\<not> isActiveRef (step e s)"
  shows "e = Window ''blur''"
proof (cases e)
  case (Window ty)
  with assms show ?thesis
    by (simp add: dispatch_attached handleUserInteraction_def split: if_splits)
next
  case (Bridge name)
  with assms show ?thesis by (simp add: emit_attached split: if_splits)
next
  case (Timer h)
  with assms show ?thesis by simp
next
  case Unmount
  with assms show ?thesis by simp
qed

lemma flag_step_up:
  assumes "attached s" "\<not> isActiveRef s" "isActiveRef (step e s)"
  shows "step e s = resetToFastRendering s"
proof (cases e)
  case (Window ty)
  with assms show ?thesis
    by (simp add: dispatch_attached handleUserInteraction_def handleBlur_def split: if_splits)
next
  case (Bridge name)
  with assms show ?thesis by (simp add: emit_attached split: if_splits)
next
  case (Timer h)
  with assms show ?thesis by simp
next
  case Unmount
  with assms show ?thesis by simp
qed

text \<open>
  C10: a timer fire never touches the activity flag, and neither do mounting and
  unmounting. Of the four callbacks only the blur handler can turn a true flag into
  false, and a callback that turns a false flag into true has run
  \<open>resetToFastRendering\<close>; on a mounted scheduler the only event that lowers the flag is
  the blur event of \<open>window\<close>, and an event that raises it has the effect of
  \<open>resetToFastRendering\<close>. The flag starts as true. So after a blur the flag is false
  after any number of timer fires.
\<close>

theorem activity_flag_frame:
  "isActiveRef (timer_callback s) = isActiveRef s \<and>
   isActiveRef (fire h s) = isActiveRef s \<and>
   (\<forall>n. isActiveRef (fires n s) = isActiveRef s) \<and>
   (\<forall>n. \<not> isActiveRef (fires n (handleBlur s))) \<and>
   isActiveRef (mount s) = isActiveRef s \<and>
   isActiveRef (cleanup s) = isActiveRef s \<and>
   isActiveRef initial \<and> isActiveRef started \<and>
   isActiveRef (resetToFastRendering s) \<and>
   (\<forall>cb. isActiveRef s \<and> \<not> isActiveRef (run_callback cb s) \<longrightarrow> cb = HandleBlur) \<and>
   (\<forall>cb. \<not> isActiveRef s \<and> isActiveRef (run_callback cb s) \<longrightarrow>
      run_callback cb s = resetToFastRendering s) \<and>
   (\<forall>e. attached s \<and> isActiveRef s \<and> \<not> isActiveRef (step e s) \<longrightarrow> e = Window ''blur'') \<and>
   (\<forall>e. attached s \<and> \<not> isActiveRef s \<and> isActiveRef (step e s) \<longrightarrow>
      step e s = resetToFastRendering s)"
proof -
  have down: "\<forall>cb. isActiveRef s \<and> \<not> isActiveRef (run_callback cb s) \<longrightarrow> cb = HandleBlur"
  proof (intro allI impI)
    fix cb
    assume "isActiveRef s \<and> \<not> isActiveRef (run_callback cb s)"
    then show "cb = HandleBlur"
      by (cases cb) (simp_all add: handleFocus_def handleUserInteraction_def split: if_splits)
  qed
  have up: "\<forall>cb. \<not> isActiveRef s \<and> isActiveRef (run_callback cb s) \<longrightarrow>
      run_callback cb s = resetToFastRendering s"
  proof (intro allI impI)
    fix cb
    assume "\<not> isActiveRef s \<and> isActiveRef (run_callback cb s)"
    then show "run_callback cb s = resetToFastRendering s"
      by (cases cb)
         (simp_all add: handleFocus_def handleUserInteraction_def handleBlur_def)
  qed
  have "\<forall>n. \<not> isActiveRef (fires n (handleBlur s))"
    by (simp add: handleBlur_def)
  moreover have "isActiveRef initial" by (simp add: initial_def)
  moreover have "\<forall>e. attached s \<and> isActiveRef s \<and> \<not> isActiveRef (step e s) \<longrightarrow>
      e = Window ''blur''"
    using flag_step_down by blast
  moreover have "\<forall>e. attached s \<and> \<not> isActiveRef s \<and> isActiveRef (step e s) \<longrightarrow>
      step e s = resetToFastRendering s"
    using flag_step_up by blast
  ultimately show ?thesis
    using down up by (simp add: started_fields)
qed

theorem activity_flag_frame_witness:
  "attached started \<and> isActiveRef started \<and>
   \<not> isActiveRef (step (Window ''blur'') started) \<and>
   \<not> isActiveRef (fires 5 (handleBlur started)) \<and>
   \<not> isActiveRef (handleBlur started) \<and>
   isActiveRef (run_callback HandleHMR (handleBlur started)) \<and>
   run_callback HandleHMR (handleBlur started) = resetToFastRendering (handleBlur started)"
proof -
  note w = activity_flag_frame [of "handleBlur started"]
  have b: "\<not> isActiveRef (handleBlur started)" by (simp add: handleBlur_def)
  have u: "isActiveRef (run_callback HandleHMR (handleBlur started))" by simp
  from w b u
  have "run_callback HandleHMR (handleBlur started) = resetToFastRendering (handleBlur started)"
    by blast
  moreover from activity_flag_frame [of started]
  have "\<not> isActiveRef (fires 5 (handleBlur started))" by blast
  moreover have "\<not> isActiveRef (step (Window ''blur'') started)"
    using started_invariants(4) by (simp add: dispatch_blur handleBlur_def)
  ultimately show ?thesis
    using b u by (simp add: started_invariants started_fields)
qed

section \<open>The cursor\<close>

text \<open>
  C6: the cursor starts at 0 and stays between 0 and the last index of the table. Every
  operation keeps it there: the timer callback and a timer fire, the handler of the
  interaction events, the blur handler, the focus handler, mounting and unmounting, any
  event and any sequence of events; \<open>resetToFastRendering\<close> puts it at 0 from anywhere.
  The timer callback adds one only while the cursor is strictly below the last index, so
  at the last index the cursor stays where it is.
\<close>

theorem cursor_in_range:
  "intervalIndexRef initial = 0 \<and> cursor_ok initial \<and> cursor_ok started \<and>
   (cursor_ok s \<longrightarrow>
      cursor_ok (timer_callback s) \<and> cursor_ok (fire h s) \<and>
      cursor_ok (handleUserInteraction s) \<and> cursor_ok (handleBlur s) \<and>
      cursor_ok (handleFocus s) \<and> cursor_ok (mount s) \<and> cursor_ok (cleanup s) \<and>
      cursor_ok (step e s) \<and> cursor_ok (run evs s)) \<and>
   cursor_ok (resetToFastRendering s) \<and>
   (\<forall>es. 0 \<le> intervalIndexRef (run es started) \<and>
      intervalIndexRef (run es started) \<le> int (length PROGRESSIVE_INTERVALS) - 1) \<and>
   intervalIndexRef (timer_callback s) =
     (if intervalIndexRef s < int (length PROGRESSIVE_INTERVALS) - 1
      then intervalIndexRef s + 1 else intervalIndexRef s) \<and>
   (cursor_ok s \<and> \<not> intervalIndexRef s < last_index \<longrightarrow>
      intervalIndexRef (timer_callback s) = last_index)"
proof -
  have i: "cursor_ok initial" "intervalIndexRef initial = 0"
    by (simp_all add: cursor_ok_def initial_def last_index_eq)
  have r: "cursor_ok (resetToFastRendering s)"
    by (simp add: cursor_ok_def last_index_eq)
  have ops: "cursor_ok s \<longrightarrow>
      cursor_ok (timer_callback s) \<and> cursor_ok (fire h s) \<and>
      cursor_ok (handleUserInteraction s) \<and> cursor_ok (handleBlur s) \<and>
      cursor_ok (handleFocus s) \<and> cursor_ok (mount s) \<and> cursor_ok (cleanup s) \<and>
      cursor_ok (step e s) \<and> cursor_ok (run evs s)"
  proof
    assume c: "cursor_ok s"
    have "cursor_ok (handleUserInteraction s)" "cursor_ok (handleBlur s)"
      "cursor_ok (handleFocus s)"
      using c cursor_ok_run_callback [of s HandleUserInteraction]
        cursor_ok_run_callback [of s HandleBlur] cursor_ok_run_callback [of s HandleFocus]
      by simp_all
    moreover have "cursor_ok (mount s)" "cursor_ok (cleanup s)"
      using c by (simp_all add: cursor_ok_def)
    ultimately show "cursor_ok (timer_callback s) \<and> cursor_ok (fire h s) \<and>
      cursor_ok (handleUserInteraction s) \<and> cursor_ok (handleBlur s) \<and>
      cursor_ok (handleFocus s) \<and> cursor_ok (mount s) \<and> cursor_ok (cleanup s) \<and>
      cursor_ok (step e s) \<and> cursor_ok (run evs s)"
      using c
      by (simp add: cursor_ok_timer_callback cursor_ok_fire cursor_ok_step cursor_ok_run)
  qed
  have reach: "\<forall>es. 0 \<le> intervalIndexRef (run es started) \<and>
      intervalIndexRef (run es started) \<le> int (length PROGRESSIVE_INTERVALS) - 1"
  proof
    fix es
    have "cursor_ok (run es started)"
      using started_invariants(3) by (rule cursor_ok_run)
    then show "0 \<le> intervalIndexRef (run es started) \<and>
        intervalIndexRef (run es started) \<le> int (length PROGRESSIVE_INTERVALS) - 1"
      by (simp add: cursor_ok_def last_index_def)
  qed
  have sat: "cursor_ok s \<and> \<not> intervalIndexRef s < last_index \<longrightarrow>
      intervalIndexRef (timer_callback s) = last_index"
    by (simp add: cursor_ok_def)
  have adv: "intervalIndexRef (timer_callback s) =
     (if intervalIndexRef s < int (length PROGRESSIVE_INTERVALS) - 1
      then intervalIndexRef s + 1 else intervalIndexRef s)"
    by (simp add: last_index_def)
  from i r ops reach sat adv started_invariants(3) show ?thesis
    by blast
qed

theorem cursor_in_range_witness:
  "cursor_ok (fires 7 started) \<and> intervalIndexRef (fires 7 started) = 7 \<and>
   cursor_ok (timer_callback (fires 7 started)) \<and>
   intervalIndexRef (timer_callback (fires 7 started)) = 7 \<and>
   cursor_ok (run [Timer 1, Window ''keydown''] (fires 7 started))"
proof -
  have c: "intervalIndexRef (fires 7 started) = 7"
    using cursor_fires [OF started_invariants(2) started_invariants(3), of 7]
    by (simp add: started_fields last_index_eq)
  then have k: "cursor_ok (fires 7 started)"
    by (simp add: cursor_ok_def last_index_eq)
  note w = cursor_in_range [of "fires 7 started" 1 "Window ''keydown''"
      "[Timer 1, Window ''keydown'']"]
  from w k have "cursor_ok (timer_callback (fires 7 started))"
    and "cursor_ok (run [Timer 1, Window ''keydown''] (fires 7 started))"
    by blast+
  moreover from w k c have "intervalIndexRef (timer_callback (fires 7 started)) = last_index"
    by (simp add: last_index_eq)
  ultimately show ?thesis
    using c k by (simp add: last_index_eq)
qed

section \<open>The pending timer\<close>

text \<open>
  C7: from the start through unmounting, whatever events arrive in whatever order, at
  most one timer is pending after every turn, and it is the one whose handle is in
  \<open>timerRef\<close>. Within a turn the order is cancel, then arm: when the hook owns the pending
  timer, \<open>clearTimer\<close> leaves the queue empty, \<open>scheduleNextRender\<close> and
  \<open>resetToFastRendering\<close> leave exactly one timer, a timer fire leaves at most one (the
  fired timer has left the queue when the callback arms the next), and unmounting leaves
  none. Scheduling twice in a row leaves the same pending delays as scheduling once.
\<close>

theorem single_pending_timer:
  "timers initial = [] \<and> length (timers started) = 1 \<and>
   (\<forall>es. length (timers (run es started)) \<le> 1 \<and> timer_owned (run es started)) \<and>
   (timer_owned s \<longrightarrow>
      timers (clearTimer s) = [] \<and>
      length (timers (scheduleNextRender s)) = 1 \<and>
      length (timers (resetToFastRendering s)) = 1 \<and>
      length (timers (fire h s)) \<le> 1 \<and>
      timers (cleanup s) = [] \<and>
      timer_owned (step e s) \<and>
      length (timers (scheduleNextRender (scheduleNextRender s))) = 1 \<and>
      pending_delays (scheduleNextRender (scheduleNextRender s)) =
        pending_delays (scheduleNextRender s))"
proof -
  have reach: "\<forall>es. length (timers (run es started)) \<le> 1 \<and> timer_owned (run es started)"
  proof
    fix es
    have "timer_owned (run es started)"
      using started_invariants(1) by (rule timer_owned_run)
    then show "length (timers (run es started)) \<le> 1 \<and> timer_owned (run es started)"
      using timer_owned_length by blast
  qed
  have ops: "timer_owned s \<longrightarrow>
      timers (clearTimer s) = [] \<and>
      length (timers (scheduleNextRender s)) = 1 \<and>
      length (timers (resetToFastRendering s)) = 1 \<and>
      length (timers (fire h s)) \<le> 1 \<and>
      timers (cleanup s) = [] \<and>
      timer_owned (step e s) \<and>
      length (timers (scheduleNextRender (scheduleNextRender s))) = 1 \<and>
      pending_delays (scheduleNextRender (scheduleNextRender s)) =
        pending_delays (scheduleNextRender s)"
  proof
    assume o: "timer_owned s"
    then have o': "timer_owned (scheduleNextRender s)" by (rule timer_owned_schedule)
    have "length (timers (fire h s)) \<le> 1"
      using o timer_owned_fire timer_owned_length by blast
    moreover have "timers (scheduleNextRender (scheduleNextRender s)) =
        [(Suc (next_handle s), currentInterval (intervalIndexRef s))]"
      using timers_schedule [OF o'] by simp
    ultimately show "timers (clearTimer s) = [] \<and>
      length (timers (scheduleNextRender s)) = 1 \<and>
      length (timers (resetToFastRendering s)) = 1 \<and>
      length (timers (fire h s)) \<le> 1 \<and>
      timers (cleanup s) = [] \<and>
      timer_owned (step e s) \<and>
      length (timers (scheduleNextRender (scheduleNextRender s))) = 1 \<and>
      pending_delays (scheduleNextRender (scheduleNextRender s)) =
        pending_delays (scheduleNextRender s)"
      using o
      by (simp add: timers_clearTimer timers_schedule resetToFastRendering_timers
          timer_owned_step pending_delays_def)
  qed
  have "timers initial = []" by (simp add: initial_def)
  with reach ops show ?thesis by (simp add: started_fields)
qed

theorem single_pending_timer_witness:
  "timer_owned started \<and> timers started = [(1, 16)] \<and>
   timers (clearTimer started) = [] \<and>
   length (timers (scheduleNextRender started)) = 1 \<and>
   pending_delays (scheduleNextRender (scheduleNextRender started)) = [16] \<and>
   length (timers (run [Window ''focus'', Timer 2, Window ''wheel'', Bridge ''self:request-reset-error-boundary''] started)) \<le> 1"
proof -
  note w = single_pending_timer [of started]
  from w started_invariants(1) have "timers (clearTimer started) = []"
    and "length (timers (scheduleNextRender started)) = 1"
    and e: "pending_delays (scheduleNextRender (scheduleNextRender started)) =
        pending_delays (scheduleNextRender started)"
    by blast+
  moreover have "pending_delays (scheduleNextRender started) = [16]"
    using timers_schedule [OF started_invariants(1)]
    by (simp add: pending_delays_def started_fields currentInterval_def js_index_def
        PROGRESSIVE_INTERVALS_def)
  moreover from w have "length (timers (run [Window ''focus'', Timer 2, Window ''wheel'',
      Bridge ''self:request-reset-error-boundary''] started)) \<le> 1"
    by blast
  ultimately show ?thesis
    by (simp add: started_invariants started_fields)
qed

section \<open>Unmounting\<close>

lemma redraws_cleanup: "redraws (cleanup s) = redraws s"
  by (simp add: redraws_def split: option.splits)

lemma cleanup_final:
  assumes "attached s" and "timer_owned s"
  shows "run es (cleanup s) = cleanup s"
proof (rule dead_run)
  show "detached (cleanup s)" using assms(1) by (rule cleanup_detaches)
  show "timers (cleanup s) = []" using assms(2) by (simp add: timers_clearTimer)
  show "timerRef (cleanup s) = None" by simp
qed

text \<open>
  C9: unmounting a mounted scheduler that owns its pending timer cancels that timer,
  clears \<open>timerRef\<close>, removes the focus listener, the blur listener, the seven interaction
  listeners and the bridge subscription, and requests no redraw. From then on no event
  changes anything, whichever events arrive (window events of any type, bridge events of
  any name, timer fires of any handle, another unmount): the state stays as unmounting
  left it, so no timer is pending and the number of redraw requests stays what it was
  before unmounting. This holds after every sequence of events that leads from the start
  to the unmount.
\<close>

theorem teardown_is_final:
  "(attached s \<and> timer_owned s \<longrightarrow>
      timers (cleanup s) = [] \<and> timerRef (cleanup s) = None \<and>
      window_listeners (cleanup s) = [] \<and> bridge_listeners (cleanup s) = [] \<and>
      redraws (cleanup s) = redraws s \<and>
      (\<forall>es. run es (step Unmount s) = cleanup s) \<and>
      (\<forall>es. redraws (run es (step Unmount s)) = redraws s) \<and>
      (\<forall>es. timers (run es (step Unmount s)) = [])) \<and>
   (\<forall>es es'. Unmount \<notin> set es \<longrightarrow>
      timers (run (es @ Unmount # es') started) = [] \<and>
      redraws (run (es @ Unmount # es') started) = redraws (run es started))"
proof -
  have one: "timers (cleanup s) = [] \<and> timerRef (cleanup s) = None \<and>
      window_listeners (cleanup s) = [] \<and> bridge_listeners (cleanup s) = [] \<and>
      redraws (cleanup s) = redraws s \<and>
      (\<forall>es. run es (step Unmount s) = cleanup s) \<and>
      (\<forall>es. redraws (run es (step Unmount s)) = redraws s) \<and>
      (\<forall>es. timers (run es (step Unmount s)) = [])"
    if a: "attached s" and o: "timer_owned s" for s
  proof -
    have f: "run es (step Unmount s) = cleanup s" for es
      using cleanup_final [OF a o] by simp
    have d: "detached (cleanup s)" using a by (rule cleanup_detaches)
    have t: "timers (cleanup s) = []" using o by (simp add: timers_clearTimer)
    from d t show ?thesis
      unfolding f by (simp add: detached_def redraws_cleanup)
  qed
  have two: "timers (run (es @ Unmount # es') started) = [] \<and>
      redraws (run (es @ Unmount # es') started) = redraws (run es started)"
    if u: "Unmount \<notin> set es" for es es'
  proof -
    have a: "attached (run es started)"
      using started_invariants(4) u by (rule attached_run)
    have o: "timer_owned (run es started)"
      using started_invariants(1) by (rule timer_owned_run)
    have "run (es @ Unmount # es') started = run es' (step Unmount (run es started))"
      by (simp add: run_def)
    with one [OF a o] show ?thesis by simp
  qed
  from one [of s] two show ?thesis by blast
qed

theorem teardown_is_final_witness:
  "Unmount \<notin> set [Timer 1, Window ''blur'', Timer 2] \<and>
   redraws (run [Timer 1, Window ''blur'', Timer 2] started) = 2 \<and>
   timers (run [Timer 1, Window ''blur'', Timer 2] started) = [(3, 33)] \<and>
   timers (run ([Timer 1, Window ''blur'', Timer 2] @ Unmount #
      [Window ''focus'', Window ''mousemove'', Bridge ''self:request-reset-error-boundary'',
       Timer 3, Window ''blur'', Unmount]) started) = [] \<and>
   redraws (run ([Timer 1, Window ''blur'', Timer 2] @ Unmount #
      [Window ''focus'', Window ''mousemove'', Bridge ''self:request-reset-error-boundary'',
       Timer 3, Window ''blur'', Unmount]) started) = 2"
proof -
  have u: "Unmount \<notin> set [Timer 1, Window ''blur'', Timer 2]" by simp
  have v: "run [Timer 1, Window ''blur'', Timer 2] started =
    \<lparr>timerRef = Some 3, intervalIndexRef = 2, isActiveRef = False, timers = [(3, 33)],
      next_handle = 4, window_listeners = window_listeners started,
      bridge_listeners = bridge_listeners started,
      effects = [SetTimeout 1 16, Invalidate, ClearTimeout 1, SetTimeout 2 16,
        Invalidate, ClearTimeout 2, SetTimeout 3 33]\<rparr>"
    by code_simp
  have r: "redraws (run [Timer 1, Window ''blur'', Timer 2] started) = 2"
    and t: "timers (run [Timer 1, Window ''blur'', Timer 2] started) = [(3, 33)]"
    unfolding v by (simp_all add: redraws_def)
  from teardown_is_final [of started] u
  have "timers (run ([Timer 1, Window ''blur'', Timer 2] @ Unmount #
      [Window ''focus'', Window ''mousemove'', Bridge ''self:request-reset-error-boundary'',
       Timer 3, Window ''blur'', Unmount]) started) = []"
    and "redraws (run ([Timer 1, Window ''blur'', Timer 2] @ Unmount #
      [Window ''focus'', Window ''mousemove'', Bridge ''self:request-reset-error-boundary'',
       Timer 3, Window ''blur'', Unmount]) started) =
      redraws (run [Timer 1, Window ''blur'', Timer 2] started)"
    by blast+
  with u r t show ?thesis by simp
qed

end
